theory Spec2Isabelle
  imports Main "HOL-Library.Sublist" "HOL-Library.List_Lexorder"
begin

section \<open>Strings of the host language\<close>

text \<open>
  The module \<^verbatim>\<open>src/lib/constraints.ts\<close> works on ECMAScript strings: finite
  sequences of 16-bit UTF-16 code units. A string is modelled as the list of its code
  units, each a natural number below \<open>2 ^ 16\<close>. Regular expressions without the
  \<^verbatim>\<open>u\<close> flag, \<^verbatim>\<open>includes\<close> and \<^verbatim>\<open>startsWith\<close> see code units;
  \<^verbatim>\<open>normalize\<close>, \<^verbatim>\<open>toLowerCase\<close> and the string iterator of
  \<^verbatim>\<open>for ... of\<close> see code points.
\<close>

type_synonym jsstring = "nat list"

definition lit :: "string \<Rightarrow> jsstring" where
  \<comment> \<open>an ASCII string literal of the source\<close>
  "lit s = map of_char s"

definition dquote :: jsstring where
  \<comment> \<open>the one-character string holding a double quote, U+0022\<close>
  "dquote = [0x22]"

definition is_high_surrogate :: "nat \<Rightarrow> bool" where
  "is_high_surrogate u \<longleftrightarrow> 0xD800 \<le> u \<and> u \<le> 0xDBFF"

definition is_low_surrogate :: "nat \<Rightarrow> bool" where
  "is_low_surrogate u \<longleftrightarrow> 0xDC00 \<le> u \<and> u \<le> 0xDFFF"

definition is_scalar :: "nat \<Rightarrow> bool" where
  \<comment> \<open>a Unicode scalar value: a code point that is not a surrogate\<close>
  "is_scalar c \<longleftrightarrow> c < 0x110000 \<and> \<not> (0xD800 \<le> c \<and> c \<le> 0xDFFF)"

text \<open>
  The string iterator (\<^verbatim>\<open>for (const char of s)\<close>) yields one string per code point:
  a high surrogate followed by a low surrogate is one element of two code units, every
  other code unit (a lone surrogate too) is an element of its own.
\<close>

fun stringIterator :: "jsstring \<Rightarrow> jsstring list" where
  "stringIterator [] = []"
| "stringIterator [u] = [[u]]"
| "stringIterator (h # l # rest) =
     (if is_high_surrogate h \<and> is_low_surrogate l
      then [h, l] # stringIterator rest
      else [h] # stringIterator (l # rest))"

fun codePointAt :: "jsstring \<Rightarrow> nat" where
  \<comment> \<open>the code point of one element of the string iterator\<close>
  "codePointAt [h, l] = 0x10000 + (h - 0xD800) * 0x400 + (l - 0xDC00)"
| "codePointAt [u] = u"
| "codePointAt _ = 0"

definition utf16_decode :: "jsstring \<Rightarrow> nat list" where
  "utf16_decode s = map codePointAt (stringIterator s)"

definition utf16_encode_cp :: "nat \<Rightarrow> jsstring" where
  "utf16_encode_cp c =
     (if c < 0x10000 then [c]
      else [0xD800 + (c - 0x10000) div 0x400, 0xDC00 + (c - 0x10000) mod 0x400])"

definition utf16_encode :: "nat list \<Rightarrow> jsstring" where
  "utf16_encode cs = concat (map utf16_encode_cp cs)"

definition well_formed :: "jsstring \<Rightarrow> bool" where
  \<comment> \<open>well-formed UTF-16: 16-bit code units, every surrogate part of a pair\<close>
  "well_formed s \<longleftrightarrow>
     list_all (\<lambda>u. u < 0x10000) s \<and>
     list_all (\<lambda>e. length e = 2 \<or> is_scalar (codePointAt e)) (stringIterator s)"

text \<open>
  \<^verbatim>\<open>s.includes(p)\<close>: some position of \<open>s\<close> starts an occurrence of \<open>p\<close>;
  \<^verbatim>\<open>s.startsWith(p)\<close>: position 0 does. Both compare code units.
\<close>

definition startsWith :: "jsstring \<Rightarrow> jsstring \<Rightarrow> bool" where
  "startsWith s p \<longleftrightarrow> take (length p) s = p"

fun includes' :: "jsstring \<Rightarrow> jsstring \<Rightarrow> bool" where
  "includes' [] p = startsWith [] p"
| "includes' (u # us) p = (startsWith (u # us) p \<or> includes' us p)"

section \<open>Unicode data used by the built-in string methods\<close>

text \<open>
  \<^verbatim>\<open>String.prototype.normalize\<close> and \<^verbatim>\<open>String.prototype.toLowerCase\<close> read the
  Unicode Character Database of the host. The rows for Basic Latin and Latin-1 Supplement
  (U+0000..U+00FF), for the Combining Diacritical Marks block (U+0300..U+036F) that the
  source names, and for the two Hebrew marks U+0591 and U+05B0 are tabulated below. All
  other rows are a parameter \<open>U\<close> of the model, so that a statement proved for every
  \<open>U\<close> holds whatever the remaining rows are. Where a closed term is wanted,
  \<open>no_further_rows\<close> stands for \<open>U\<close>; the strings evaluated with it hold tabulated
  code points only, for which the result is the same with every \<open>U\<close>.
\<close>

record ucd =
  ucd_decomposition :: "nat \<Rightarrow> nat list"
    \<comment> \<open>full canonical decomposition of a code point, the code point itself if none\<close>
  ucd_ccc :: "nat \<Rightarrow> nat"
    \<comment> \<open>Canonical\_Combining\_Class\<close>
  ucd_lowercase :: "nat list \<Rightarrow> nat \<Rightarrow> nat list \<Rightarrow> nat list"
    \<comment> \<open>lowercase mapping of a code point between the code points before and after it\<close>

definition tabulated :: "nat \<Rightarrow> bool" where
  "tabulated c \<longleftrightarrow> c < 0x100 \<or> (0x300 \<le> c \<and> c \<le> 0x36F) \<or> c = 0x591 \<or> c = 0x5B0"

definition decomposition_table :: "(nat \<times> nat list) list" where
  "decomposition_table =
    [(0x00C0, [0x0041, 0x0300]), (0x00C1, [0x0041, 0x0301]), (0x00C2, [0x0041, 0x0302]),
     (0x00C3, [0x0041, 0x0303]), (0x00C4, [0x0041, 0x0308]), (0x00C5, [0x0041, 0x030A]),
     (0x00C7, [0x0043, 0x0327]), (0x00C8, [0x0045, 0x0300]), (0x00C9, [0x0045, 0x0301]),
     (0x00CA, [0x0045, 0x0302]), (0x00CB, [0x0045, 0x0308]), (0x00CC, [0x0049, 0x0300]),
     (0x00CD, [0x0049, 0x0301]), (0x00CE, [0x0049, 0x0302]), (0x00CF, [0x0049, 0x0308]),
     (0x00D1, [0x004E, 0x0303]), (0x00D2, [0x004F, 0x0300]), (0x00D3, [0x004F, 0x0301]),
     (0x00D4, [0x004F, 0x0302]), (0x00D5, [0x004F, 0x0303]), (0x00D6, [0x004F, 0x0308]),
     (0x00D9, [0x0055, 0x0300]), (0x00DA, [0x0055, 0x0301]), (0x00DB, [0x0055, 0x0302]),
     (0x00DC, [0x0055, 0x0308]), (0x00DD, [0x0059, 0x0301]), (0x00E0, [0x0061, 0x0300]),
     (0x00E1, [0x0061, 0x0301]), (0x00E2, [0x0061, 0x0302]), (0x00E3, [0x0061, 0x0303]),
     (0x00E4, [0x0061, 0x0308]), (0x00E5, [0x0061, 0x030A]), (0x00E7, [0x0063, 0x0327]),
     (0x00E8, [0x0065, 0x0300]), (0x00E9, [0x0065, 0x0301]), (0x00EA, [0x0065, 0x0302]),
     (0x00EB, [0x0065, 0x0308]), (0x00EC, [0x0069, 0x0300]), (0x00ED, [0x0069, 0x0301]),
     (0x00EE, [0x0069, 0x0302]), (0x00EF, [0x0069, 0x0308]), (0x00F1, [0x006E, 0x0303]),
     (0x00F2, [0x006F, 0x0300]), (0x00F3, [0x006F, 0x0301]), (0x00F4, [0x006F, 0x0302]),
     (0x00F5, [0x006F, 0x0303]), (0x00F6, [0x006F, 0x0308]), (0x00F9, [0x0075, 0x0300]),
     (0x00FA, [0x0075, 0x0301]), (0x00FB, [0x0075, 0x0302]), (0x00FC, [0x0075, 0x0308]),
     (0x00FD, [0x0079, 0x0301]), (0x00FF, [0x0079, 0x0308]), (0x0340, [0x0300]),
     (0x0341, [0x0301]), (0x0343, [0x0313]), (0x0344, [0x0308, 0x0301])]"

definition ccc_table :: "(nat \<times> nat) list" where
  "ccc_table =
    [(0x0300, 230), (0x0301, 230), (0x0302, 230), (0x0303, 230), (0x0304, 230), (0x0305, 230),
     (0x0306, 230), (0x0307, 230), (0x0308, 230), (0x0309, 230), (0x030A, 230), (0x030B, 230),
     (0x030C, 230), (0x030D, 230), (0x030E, 230), (0x030F, 230), (0x0310, 230), (0x0311, 230),
     (0x0312, 230), (0x0313, 230), (0x0314, 230), (0x0315, 232), (0x0316, 220), (0x0317, 220),
     (0x0318, 220), (0x0319, 220), (0x031A, 232), (0x031B, 216), (0x031C, 220), (0x031D, 220),
     (0x031E, 220), (0x031F, 220), (0x0320, 220), (0x0321, 202), (0x0322, 202), (0x0323, 220),
     (0x0324, 220), (0x0325, 220), (0x0326, 220), (0x0327, 202), (0x0328, 202), (0x0329, 220),
     (0x032A, 220), (0x032B, 220), (0x032C, 220), (0x032D, 220), (0x032E, 220), (0x032F, 220),
     (0x0330, 220), (0x0331, 220), (0x0332, 220), (0x0333, 220), (0x0334, 1), (0x0335, 1),
     (0x0336, 1), (0x0337, 1), (0x0338, 1), (0x0339, 220), (0x033A, 220), (0x033B, 220),
     (0x033C, 220), (0x033D, 230), (0x033E, 230), (0x033F, 230), (0x0340, 230), (0x0341, 230),
     (0x0342, 230), (0x0343, 230), (0x0344, 230), (0x0345, 240), (0x0346, 230), (0x0347, 220),
     (0x0348, 220), (0x0349, 220), (0x034A, 230), (0x034B, 230), (0x034C, 230), (0x034D, 220),
     (0x034E, 220), (0x0350, 230), (0x0351, 230), (0x0352, 230), (0x0353, 220), (0x0354, 220),
     (0x0355, 220), (0x0356, 220), (0x0357, 230), (0x0358, 232), (0x0359, 220), (0x035A, 220),
     (0x035B, 230), (0x035C, 233), (0x035D, 234), (0x035E, 234), (0x035F, 233), (0x0360, 234),
     (0x0361, 234), (0x0362, 233), (0x0363, 230), (0x0364, 230), (0x0365, 230), (0x0366, 230),
     (0x0367, 230), (0x0368, 230), (0x0369, 230), (0x036A, 230), (0x036B, 230), (0x036C, 230),
     (0x036D, 230), (0x036E, 230), (0x036F, 230), (0x0591, 220), (0x05B0, 10)]"

definition canonical_decomposition :: "ucd \<Rightarrow> nat \<Rightarrow> nat list" where
  "canonical_decomposition U c =
     (if tabulated c
      then (case map_of decomposition_table c of Some ds \<Rightarrow> ds | None \<Rightarrow> [c])
      else ucd_decomposition U c)"

definition ccc :: "ucd \<Rightarrow> nat \<Rightarrow> nat" where
  "ccc U c =
     (if tabulated c
      then (case map_of ccc_table c of Some k \<Rightarrow> k | None \<Rightarrow> 0)
      else ucd_ccc U c)"

definition lowercase_mapping :: "ucd \<Rightarrow> nat list \<Rightarrow> nat \<Rightarrow> nat list \<Rightarrow> nat list" where
  \<comment> \<open>A..Z and the capitals of Latin-1 (U+00C0..U+00DE without the sign U+00D7) map to
      the letter 32 places up; no other tabulated code point has a lowercase mapping\<close>
  "lowercase_mapping U pre c post =
     (if tabulated c
      then (if (0x41 \<le> c \<and> c \<le> 0x5A) \<or> (0xC0 \<le> c \<and> c \<le> 0xDE \<and> c \<noteq> 0xD7)
            then [c + 0x20] else [c])
      else ucd_lowercase U pre c post)"

definition no_further_rows :: ucd where
  \<comment> \<open>the database cut down to the tabulated rows: elsewhere no decomposition,
      combining class 0, no case mapping\<close>
  "no_further_rows =
     \<lparr>ucd_decomposition = (\<lambda>c. [c]), ucd_ccc = (\<lambda>c. 0), ucd_lowercase = (\<lambda>pre c post. [c])\<rparr>"

subsection \<open>\<^verbatim>\<open>toLowerCase\<close>\<close>

text \<open>
  \<^verbatim>\<open>toLowerCase\<close> replaces every code point by its lowercase mapping, which may depend
  on the neighbouring code points (the final sigma), and encodes the result in UTF-16.
\<close>

fun lowercase_from :: "ucd \<Rightarrow> nat list \<Rightarrow> nat list \<Rightarrow> nat list" where
  "lowercase_from U pre [] = []"
| "lowercase_from U pre (c # post) =
     lowercase_mapping U pre c post @ lowercase_from U (pre @ [c]) post"

definition toLowerCase :: "ucd \<Rightarrow> jsstring \<Rightarrow> jsstring" where
  "toLowerCase U s = utf16_encode (lowercase_from U [] (utf16_decode s))"

subsection \<open>\<^verbatim>\<open>normalize('NFD')\<close>\<close>

text \<open>
  Normalization Form D: every code point is replaced by its full canonical decomposition,
  then the canonical ordering algorithm exchanges adjacent code points \<open>a, b\<close> with
  \<open>ccc a > ccc b > 0\<close> until none is left. \<open>reorder_insert\<close> moves one code point
  to its place in an ordered sequence.
\<close>

definition decompose :: "ucd \<Rightarrow> nat list \<Rightarrow> nat list" where
  "decompose U cs = concat (map (canonical_decomposition U) cs)"

fun reorder_insert :: "ucd \<Rightarrow> nat \<Rightarrow> nat list \<Rightarrow> nat list" where
  "reorder_insert U a [] = [a]"
| "reorder_insert U a (b # bs) =
     (if ccc U a > ccc U b \<and> ccc U b > 0 then b # reorder_insert U a bs else a # b # bs)"

fun canonical_reorder :: "ucd \<Rightarrow> nat list \<Rightarrow> nat list" where
  "canonical_reorder U [] = []"
| "canonical_reorder U (c # cs) = reorder_insert U c (canonical_reorder U cs)"

definition normalize_NFD :: "ucd \<Rightarrow> jsstring \<Rightarrow> jsstring" where
  "normalize_NFD U s = utf16_encode (canonical_reorder U (decompose U (utf16_decode s)))"

section \<open>The constants of the module\<close>

definition VOWELS :: "jsstring list" where
  "VOWELS = [lit ''a'', lit ''e'', lit ''i'', lit ''o'', lit ''u'', lit ''y'']"

definition CONSONANTS :: "jsstring list" where
  "CONSONANTS =
     [lit ''b'', lit ''c'', lit ''d'', lit ''f'', lit ''g'', lit ''h'', lit ''j'', lit ''k'',
      lit ''l'', lit ''m'', lit ''n'', lit ''p'', lit ''q'', lit ''r'', lit ''s'', lit ''t'',
      lit ''v'', lit ''w'', lit ''x'', lit ''z'']"

text \<open>
  \<^verbatim>\<open>[...VOWELS, ...CONSONANTS].sort()\<close>: the default order of \<^verbatim>\<open>sort\<close> compares
  strings code unit by code unit, which is the lexicographic order on lists.
\<close>

definition ALPHABET :: "jsstring list" where
  "ALPHABET = sort (VOWELS @ CONSONANTS)"

subsection \<open>\<^verbatim>\<open>WORD_REGEX = /[\w'-]+(?<!-)/g\<close>\<close>

text \<open>
  Without the \<^verbatim>\<open>u\<close> and \<^verbatim>\<open>i\<close> flags, \<^verbatim>\<open>\w\<close> is the ASCII class
  \<^verbatim>\<open>[A-Za-z0-9_]\<close>. At a start position the greedy \<^verbatim>\<open>+\<close> first takes the longest
  run of class characters; the lookbehind \<^verbatim>\<open>(?<!-)\<close> then rejects an end that follows
  a hyphen, and the matcher backtracks one character at a time. A global
  \<^verbatim>\<open>match\<close> collects the matches from left to right, resuming after each match and
  one code unit further after a failure, and returns \<^verbatim>\<open>null\<close> when there is none.
\<close>

definition word_character :: "nat \<Rightarrow> bool" where
  "word_character u \<longleftrightarrow>
     (0x41 \<le> u \<and> u \<le> 0x5A) \<or> (0x61 \<le> u \<and> u \<le> 0x7A) \<or> (0x30 \<le> u \<and> u \<le> 0x39) \<or> u = 0x5F"

definition in_class :: "nat \<Rightarrow> bool" where
  \<comment> \<open>the class \<^verbatim>\<open>[\w'-]\<close>\<close>
  "in_class u \<longleftrightarrow> word_character u \<or> u = 0x27 \<or> u = 0x2D"

fun backtrack :: "jsstring \<Rightarrow> nat \<Rightarrow> nat option" where
  \<comment> \<open>the longest admissible length among \<open>n, n - 1, ..., 1\<close>\<close>
  "backtrack s 0 = None"
| "backtrack s (Suc n) = (if s ! n \<noteq> 0x2D then Some (Suc n) else backtrack s n)"

definition match_at :: "jsstring \<Rightarrow> nat option" where
  \<comment> \<open>the length of the match of \<^verbatim>\<open>WORD_REGEX\<close> that starts at the head of \<open>s\<close>\<close>
  "match_at s = backtrack s (length (takeWhile in_class s))"

function match_all :: "jsstring \<Rightarrow> jsstring list" where
  "match_all [] = []"
| "match_all (u # us) =
     (case match_at (u # us) of
        None \<Rightarrow> match_all us
      | Some n \<Rightarrow> take n (u # us) # match_all (drop n (u # us)))"
  by pat_completeness auto

termination match_all
proof (relation "measure length")
  fix u us n
  assume m: "match_at (u # us) = Some n"
  have "backtrack s k = Some n \<Longrightarrow> 0 < n" for s k
    by (induction k) (auto split: if_splits)
  with m have "0 < n"
    unfolding match_at_def by blast
  then show "(drop n (u # us), u # us) \<in> measure length"
    by simp
qed simp_all

definition match_WORD_REGEX :: "jsstring \<Rightarrow> jsstring list option" where
  \<comment> \<open>\<^verbatim>\<open>text.match(WORD_REGEX)\<close>\<close>
  "match_WORD_REGEX text = (let ms = match_all text in if ms = [] then None else Some ms)"

definition words_of :: "jsstring \<Rightarrow> jsstring list" where
  \<comment> \<open>\<^verbatim>\<open>text.match(WORD_REGEX) || []\<close>\<close>
  "words_of text = (case match_WORD_REGEX text of None \<Rightarrow> [] | Some ms \<Rightarrow> ms)"

subsection \<open>\<^verbatim>\<open>normalizeText\<close>\<close>

definition combining_diacritical :: "nat \<Rightarrow> bool" where
  \<comment> \<open>the character class of the \<^verbatim>\<open>replace\<close>: the code units U+0300 to U+036F\<close>
  "combining_diacritical u \<longleftrightarrow> 0x300 \<le> u \<and> u \<le> 0x36F"

definition normalizeText :: "ucd \<Rightarrow> jsstring \<Rightarrow> jsstring" where
  "normalizeText U input = filter (\<lambda>u. \<not> combining_diacritical u) (normalize_NFD U input)"

section \<open>The constraint registry\<close>

record ValidationResult =
  isValid :: bool
  error :: "jsstring option"

datatype constraint_id = Lipogram | Monovocalism | Tautogram | Alliteration

datatype parameter_type = Letter | Vowel | Consonant

record ParameterSpec =
  type' :: parameter_type
  label :: jsstring
  options :: "jsstring list"

record Constraint =
  id' :: constraint_id
  name :: jsstring
  description :: jsstring
  parameter :: ParameterSpec
  validate :: "jsstring \<Rightarrow> jsstring \<Rightarrow> ValidationResult"

definition valid :: ValidationResult where
  \<comment> \<open>\<^verbatim>\<open>{ isValid: true }\<close>\<close>
  "valid = \<lparr>isValid = True, error = None\<rparr>"

definition invalid :: "jsstring \<Rightarrow> ValidationResult" where
  \<comment> \<open>\<^verbatim>\<open>{ isValid: false, error: msg }\<close>\<close>
  "invalid msg = \<lparr>isValid = False, error = Some msg\<rparr>"

subsection \<open>Lipogram\<close>

definition lipogram_error :: "jsstring \<Rightarrow> jsstring" where
  "lipogram_error forbiddenLetter =
     lit ''Lettre interdite d'' @ [0xE9] @ lit ''tect'' @ [0xE9] @ lit ''e : '' @ dquote
       @ forbiddenLetter @ dquote"

definition lipogram_validate :: "ucd \<Rightarrow> jsstring \<Rightarrow> jsstring \<Rightarrow> ValidationResult" where
  "lipogram_validate U text param =
     (let forbiddenLetter = toLowerCase U param;
          normalizedText = normalizeText U (toLowerCase U text)
      in if includes' normalizedText forbiddenLetter
         then invalid (lipogram_error forbiddenLetter)
         else valid)"

subsection \<open>Monovocalism\<close>

definition monovocalism_error :: "jsstring \<Rightarrow> jsstring" where
  "monovocalism_error char =
     lit ''Voyelle non autoris'' @ [0xE9] @ lit ''e d'' @ [0xE9] @ lit ''tect'' @ [0xE9]
       @ lit ''e : '' @ dquote @ char @ dquote"

fun monovocalism_loop :: "jsstring list \<Rightarrow> jsstring list \<Rightarrow> ValidationResult" where
  "monovocalism_loop otherVowels [] = valid"
| "monovocalism_loop otherVowels (char # chars) =
     (if List.member otherVowels char
      then invalid (monovocalism_error char)
      else monovocalism_loop otherVowels chars)"

definition monovocalism_validate :: "ucd \<Rightarrow> jsstring \<Rightarrow> jsstring \<Rightarrow> ValidationResult" where
  "monovocalism_validate U text param =
     (let allowedVowel = toLowerCase U param;
          otherVowels = filter (\<lambda>v. v \<noteq> allowedVowel) VOWELS;
          normalizedText = normalizeText U (toLowerCase U text)
      in monovocalism_loop otherVowels (stringIterator normalizedText))"

subsection \<open>Tautogram\<close>

definition tautogram_error :: "jsstring \<Rightarrow> jsstring \<Rightarrow> jsstring" where
  "tautogram_error word initialLetter =
     lit ''Le mot '' @ dquote @ word @ dquote @ lit '' ne commence pas par '' @ dquote
       @ initialLetter @ dquote"

fun tautogram_loop :: "ucd \<Rightarrow> jsstring \<Rightarrow> jsstring list \<Rightarrow> ValidationResult" where
  "tautogram_loop U initialLetter [] = valid"
| "tautogram_loop U initialLetter (word # words) =
     (let normalizedWord = normalizeText U (toLowerCase U word)
      in if \<not> startsWith normalizedWord initialLetter
         then invalid (tautogram_error word initialLetter)
         else tautogram_loop U initialLetter words)"

definition tautogram_validate :: "ucd \<Rightarrow> jsstring \<Rightarrow> jsstring \<Rightarrow> ValidationResult" where
  "tautogram_validate U text param =
     (let words = words_of text;
          initialLetter = toLowerCase U param
      in tautogram_loop U initialLetter words)"

subsection \<open>Alliteration\<close>

definition alliteration_error :: "jsstring \<Rightarrow> jsstring \<Rightarrow> jsstring" where
  "alliteration_error word initialConsonant =
     lit ''Le mot '' @ dquote @ word @ dquote @ lit '' ne commence pas par la consonne ''
       @ dquote @ initialConsonant @ dquote"

fun alliteration_loop :: "ucd \<Rightarrow> jsstring \<Rightarrow> jsstring list \<Rightarrow> ValidationResult" where
  "alliteration_loop U initialConsonant [] = valid"
| "alliteration_loop U initialConsonant (word # words) =
     (let normalizedWord = normalizeText U (toLowerCase U word)
      in if \<not> startsWith normalizedWord initialConsonant
         then invalid (alliteration_error word initialConsonant)
         else alliteration_loop U initialConsonant words)"

definition alliteration_validate :: "ucd \<Rightarrow> jsstring \<Rightarrow> jsstring \<Rightarrow> ValidationResult" where
  "alliteration_validate U text param =
     (let words = words_of text;
          initialConsonant = toLowerCase U param
      in alliteration_loop U initialConsonant words)"

subsection \<open>\<^verbatim>\<open>CONSTRAINTS\<close>\<close>

definition CONSTRAINTS :: "ucd \<Rightarrow> Constraint list" where
  "CONSTRAINTS U =
     [\<lparr>id' = Lipogram,
       name = lit ''Lipogramme'',
       description = lit ''Interdiction d'' @ [0x2019] @ lit ''une lettre donn'' @ [0xE9] @ lit ''e.'',
       parameter = \<lparr>type' = Letter, label = lit ''Lettre interdite'', options = ALPHABET\<rparr>,
       validate = lipogram_validate U\<rparr>,
      \<lparr>id' = Monovocalism,
       name = lit ''Monovocalisme'',
       description = lit ''Autorisation d'' @ [0x2019] @ lit ''une seule voyelle.'',
       parameter = \<lparr>type' = Vowel, label = lit ''Voyelle autoris'' @ [0xE9] @ lit ''e'',
                    options = VOWELS\<rparr>,
       validate = monovocalism_validate U\<rparr>,
      \<lparr>id' = Tautogram,
       name = lit ''Tautogramme'',
       description = lit ''Tous les mots doivent commencer par la m'' @ [0xEA] @ lit ''me lettre.'',
       parameter = \<lparr>type' = Letter, label = lit ''Lettre initiale'', options = ALPHABET\<rparr>,
       validate = tautogram_validate U\<rparr>,
      \<lparr>id' = Alliteration,
       name = lit ''Allit'' @ [0xE9] @ lit ''ration syst'' @ [0xE9] @ lit ''matique'',
       description = lit ''Tous les mots doivent commencer par la m'' @ [0xEA] @ lit ''me consonne.'',
       parameter = \<lparr>type' = Consonant, label = lit ''Consonne initiale'', options = CONSONANTS\<rparr>,
       validate = alliteration_validate U\<rparr>]"

section \<open>Auxiliary notions used in the statements\<close>

definition ascii :: "jsstring \<Rightarrow> bool" where
  "ascii s \<longleftrightarrow> list_all (\<lambda>u. u < 0x80) s"

definition ascii_lower :: "nat \<Rightarrow> nat" where
  "ascii_lower u = (if 0x41 \<le> u \<and> u \<le> 0x5A then u + 0x20 else u)"

definition full_decompositions :: "ucd \<Rightarrow> bool" where
  \<comment> \<open>what the Unicode Character Database guarantees of full canonical decompositions:
      a scalar value decomposes into scalar values that do not decompose further\<close>
  "full_decompositions U \<longleftrightarrow>
     (\<forall>c. is_scalar c \<longrightarrow>
        (\<forall>d \<in> set (canonical_decomposition U c). is_scalar d \<and> canonical_decomposition U d = [d]))"

text \<open>
  A sequence of code points is canonically ordered when the canonical ordering algorithm
  finds no adjacent pair to exchange.
\<close>

fun canonically_ordered :: "ucd \<Rightarrow> nat list \<Rightarrow> bool" where
  "canonically_ordered U [] = True"
| "canonically_ordered U [a] = True"
| "canonically_ordered U (a # b # cs) =
     (\<not> (ccc U a > ccc U b \<and> ccc U b > 0) \<and> canonically_ordered U (b # cs))"

section \<open>Facts about the string primitives\<close>

lemma startsWith_prefix: "startsWith s p \<longleftrightarrow> prefix p s"
  unfolding startsWith_def
  by (metis append_eq_conv_conj prefix_def take_is_prefix)

lemma includes'_sublist: "includes' s p \<longleftrightarrow> sublist p s"
  by (induction s) (simp_all add: startsWith_prefix sublist_Cons_right)

lemma includes'_single: "includes' s [l] \<longleftrightarrow> l \<in> set s"
  by (induction s) (auto simp add: startsWith_def)

lemma includes'_Nil: "includes' s []"
  by (cases s) (simp_all add: startsWith_def)

lemma utf16_decode_Nil: "utf16_decode [] = []"
  by (simp add: utf16_decode_def)

lemma utf16_encode_Nil: "utf16_encode [] = []"
  by (simp add: utf16_encode_def)

lemma toLowerCase_Nil: "toLowerCase U [] = []"
  by (simp add: toLowerCase_def utf16_decode_Nil utf16_encode_Nil)

lemma normalize_NFD_Nil: "normalize_NFD U [] = []"
  by (simp add: normalize_NFD_def utf16_decode_Nil utf16_encode_Nil decompose_def)

lemma normalizeText_Nil: "normalizeText U [] = []"
  by (simp add: normalizeText_def normalize_NFD_Nil)

lemma toLowerCase_ascii:
  "u < 0x80 \<Longrightarrow> toLowerCase U [u] = [if 0x41 \<le> u \<and> u \<le> 0x5A then u + 0x20 else u]"
  by (simp add: toLowerCase_def utf16_decode_def utf16_encode_def utf16_encode_cp_def
      lowercase_mapping_def tabulated_def)

lemma ALPHABET_letters: "ALPHABET = map (\<lambda>l. [l]) [0x61..<0x7B]"
  by (simp add: ALPHABET_def VOWELS_def CONSONANTS_def lit_def upt_rec)

lemma in_ALPHABET: "p \<in> set ALPHABET \<longleftrightarrow> (\<exists>l. p = [l] \<and> 0x61 \<le> l \<and> l < 0x7B)"
  unfolding ALPHABET_letters by (auto simp del: upt_rec_numeral)

subsection \<open>The tabulated rows\<close>

lemma decomposition_table_keys:
  "list_all (\<lambda>(c, ds). 0xC0 \<le> c \<and> tabulated c) decomposition_table"
  by (simp add: decomposition_table_def tabulated_def)

lemma ccc_table_keys: "list_all (\<lambda>(c, k). 0x300 \<le> c) ccc_table"
  by (simp add: ccc_table_def)

lemma decomposition_table_None: "c < 0xC0 \<Longrightarrow> map_of decomposition_table c = None"
proof (cases "map_of decomposition_table c")
  case (Some ds)
  assume c: "c < 0xC0"
  from Some have "(c, ds) \<in> set decomposition_table"
    by (rule map_of_SomeD)
  with decomposition_table_keys have "0xC0 \<le> c"
    by (auto simp add: list_all_iff)
  with c show ?thesis by simp
qed simp

lemma ccc_table_None: "c < 0x300 \<Longrightarrow> map_of ccc_table c = None"
proof (cases "map_of ccc_table c")
  case (Some k)
  assume c: "c < 0x300"
  from Some have "(c, k) \<in> set ccc_table"
    by (rule map_of_SomeD)
  with ccc_table_keys have "0x300 \<le> c"
    by (auto simp add: list_all_iff)
  with c show ?thesis by simp
qed simp

lemma canonical_decomposition_below_C0: "c < 0xC0 \<Longrightarrow> canonical_decomposition U c = [c]"
  by (simp add: canonical_decomposition_def tabulated_def decomposition_table_None)

lemma ccc_latin1: "c < 0x100 \<Longrightarrow> ccc U c = 0"
  by (simp add: ccc_def tabulated_def ccc_table_None)

lemma french_decompositions:
  "canonical_decomposition U 0xE9 = [0x65, 0x301]"
  "canonical_decomposition U 0xE8 = [0x65, 0x300]"
  "canonical_decomposition U 0xEA = [0x65, 0x302]"
  "canonical_decomposition U 0xEB = [0x65, 0x308]"
  "canonical_decomposition U 0xE0 = [0x61, 0x300]"
  "canonical_decomposition U 0xE2 = [0x61, 0x302]"
  "canonical_decomposition U 0xF9 = [0x75, 0x300]"
  "canonical_decomposition U 0xFB = [0x75, 0x302]"
  "canonical_decomposition U 0xF4 = [0x6F, 0x302]"
  "canonical_decomposition U 0xEE = [0x69, 0x302]"
  "canonical_decomposition U 0xEF = [0x69, 0x308]"
  "canonical_decomposition U 0xE7 = [0x63, 0x327]"
  by (simp_all add: canonical_decomposition_def tabulated_def decomposition_table_def)

lemma french_marks_ccc:
  "ccc U 0x300 = 230" "ccc U 0x301 = 230" "ccc U 0x302 = 230" "ccc U 0x308 = 230"
  "ccc U 0x327 = 202"
  by (simp_all add: ccc_def tabulated_def ccc_table_def)

lemma hebrew_marks:
  "canonical_decomposition U 0x591 = [0x591]" "canonical_decomposition U 0x5B0 = [0x5B0]"
  "canonical_decomposition U 0x34F = [0x34F]"
  "ccc U 0x591 = 220" "ccc U 0x5B0 = 10" "ccc U 0x34F = 0"
  by (simp_all add: canonical_decomposition_def ccc_def tabulated_def decomposition_table_def
      ccc_table_def)

subsection \<open>ASCII strings\<close>

lemma ascii_Nil: "ascii []"
  by (simp add: ascii_def)

lemma ascii_Cons: "ascii (u # us) \<longleftrightarrow> u < 0x80 \<and> ascii us"
  by (simp add: ascii_def)

lemma stringIterator_units:
  "list_all (\<lambda>u. \<not> is_high_surrogate u) s \<Longrightarrow> stringIterator s = map (\<lambda>u. [u]) s"
  by (induction s rule: stringIterator.induct) simp_all

lemma utf16_decode_units:
  "list_all (\<lambda>u. \<not> is_high_surrogate u) s \<Longrightarrow> utf16_decode s = s"
  by (simp add: utf16_decode_def stringIterator_units comp_def)

lemma utf16_encode_bmp: "list_all (\<lambda>c. c < 0x10000) cs \<Longrightarrow> utf16_encode cs = cs"
  by (induction cs) (simp_all add: utf16_encode_def utf16_encode_cp_def)

lemma canonical_reorder_starters:
  "list_all (\<lambda>c. ccc U c = 0) cs \<Longrightarrow> canonical_reorder U cs = cs"
proof (induction cs)
  case Nil
  show ?case by simp
next
  case (Cons c cs)
  then show ?case by (cases cs) simp_all
qed

lemma utf16_decode_ascii: "ascii s \<Longrightarrow> utf16_decode s = s"
  by (rule utf16_decode_units) (auto simp add: ascii_def list_all_iff is_high_surrogate_def)

lemma utf16_encode_ascii: "ascii s \<Longrightarrow> utf16_encode s = s"
  by (rule utf16_encode_bmp) (auto simp add: ascii_def list_all_iff)

lemma normalize_NFD_ascii:
  assumes "ascii s"
  shows "normalize_NFD U s = s"
proof -
  from assms have a: "\<forall>u\<in>set s. u < 0x80"
    by (simp add: ascii_def list_all_iff)
  have "decompose U s = s"
    unfolding decompose_def using a
    by (induction s) (simp_all add: canonical_decomposition_below_C0)
  moreover have "canonical_reorder U s = s"
    using a by (intro canonical_reorder_starters) (auto simp add: list_all_iff ccc_latin1)
  ultimately show ?thesis
    using assms by (simp add: normalize_NFD_def utf16_decode_ascii utf16_encode_ascii)
qed

lemma normalizeText_ascii: "ascii s \<Longrightarrow> normalizeText U s = s"
  by (auto simp add: normalizeText_def normalize_NFD_ascii ascii_def list_all_iff
      combining_diacritical_def filter_id_conv)

lemma lowercase_from_ascii: "ascii s \<Longrightarrow> lowercase_from U pre s = map ascii_lower s"
  by (induction s arbitrary: pre)
     (simp_all add: ascii_Cons lowercase_mapping_def tabulated_def ascii_lower_def)

lemma ascii_map_lower: "ascii s \<Longrightarrow> ascii (map ascii_lower s)"
  by (induction s) (auto simp add: ascii_Nil ascii_Cons ascii_lower_def)

lemma toLowerCase_ascii_string: "ascii s \<Longrightarrow> toLowerCase U s = map ascii_lower s"
  by (simp add: toLowerCase_def utf16_decode_ascii lowercase_from_ascii utf16_encode_ascii
      ascii_map_lower)

lemma in_ALPHABET_lower: "p \<in> set ALPHABET \<Longrightarrow> toLowerCase U p = p"
  by (auto simp add: in_ALPHABET toLowerCase_ascii)

lemma in_ALPHABET_upper:
  "p \<in> set ALPHABET \<Longrightarrow> toLowerCase U (map (\<lambda>u. u - 0x20) p) = p"
  by (auto simp add: in_ALPHABET toLowerCase_ascii)

lemmas regex_eval =
  words_of_def match_WORD_REGEX_def match_at_def in_class_def word_character_def

lemmas ascii_eval =
  toLowerCase_ascii_string normalizeText_ascii ascii_Nil ascii_Cons ascii_lower_def

lemma words_of_Nil: "words_of [] = []"
  by (simp add: regex_eval)

lemma CONSTRAINTS_cases:
  assumes "c \<in> set (CONSTRAINTS U)"
  obtains
    "id' c = Lipogram" "options (parameter c) = ALPHABET" "validate c = lipogram_validate U"
  | "id' c = Monovocalism" "options (parameter c) = VOWELS" "validate c = monovocalism_validate U"
  | "id' c = Tautogram" "options (parameter c) = ALPHABET" "validate c = tautogram_validate U"
  | "id' c = Alliteration" "options (parameter c) = CONSONANTS"
      "validate c = alliteration_validate U"
  using assms unfolding CONSTRAINTS_def by auto

subsection \<open>Evaluation and the loops of the validators\<close>

lemmas unicode_eval =
  toLowerCase_def normalize_NFD_def normalizeText_def utf16_decode_def utf16_encode_def
  utf16_encode_cp_def lowercase_mapping_def tabulated_def decompose_def
  is_high_surrogate_def is_low_surrogate_def combining_diacritical_def
  french_decompositions french_marks_ccc canonical_decomposition_below_C0 ccc_latin1

lemma normalizeText_cafe: "normalizeText U (toLowerCase U (lit ''caf'' @ [0xE9])) = lit ''cafe''"
  by (simp add: unicode_eval lit_def)


lemma monovocalism_loop_valid:
  "isValid (monovocalism_loop otherVowels chars) \<longleftrightarrow> (\<forall>char \<in> set chars. char \<notin> set otherVowels)"
  by (induction chars) (simp_all add: valid_def invalid_def)

lemma tautogram_loop_valid:
  "isValid (tautogram_loop U l ws)
     \<longleftrightarrow> (\<forall>word \<in> set ws. prefix l (normalizeText U (toLowerCase U word)))"
  by (induction ws) (simp_all add: valid_def invalid_def Let_def startsWith_prefix)

lemma alliteration_loop_valid:
  "isValid (alliteration_loop U l ws)
     \<longleftrightarrow> (\<forall>word \<in> set ws. prefix l (normalizeText U (toLowerCase U word)))"
  by (induction ws) (simp_all add: valid_def invalid_def Let_def startsWith_prefix)

subsection \<open>Canonical ordering, UTF-16 and the normalizer\<close>

lemma set_reorder_insert: "set (reorder_insert U a bs) = insert a (set bs)"
  by (induction bs) auto

lemma set_canonical_reorder: "set (canonical_reorder U cs) = set cs"
  by (induction cs) (simp_all add: set_reorder_insert)

lemma ordered_reorder_insert:
  "canonically_ordered U bs \<Longrightarrow> canonically_ordered U (reorder_insert U a bs)"
proof (induction bs rule: canonically_ordered.induct)
  case (1 U)
  show ?case by simp
next
  case (2 U b)
  show ?case by simp
next
  case (3 U b c cs)
  then show ?case by auto
qed

lemma ordered_canonical_reorder: "canonically_ordered U (canonical_reorder U cs)"
  by (induction cs) (simp_all add: ordered_reorder_insert)

lemma canonical_reorder_ordered:
  "canonically_ordered U cs \<Longrightarrow> canonical_reorder U cs = cs"
proof (induction cs rule: canonically_ordered.induct)
  case (3 U a b cs)
  then have fixed: "canonical_reorder U (b # cs) = b # cs"
    by simp
  have "canonical_reorder U (a # b # cs) = reorder_insert U a (canonical_reorder U (b # cs))"
    by (simp only: canonical_reorder.simps)
  also have "\<dots> = reorder_insert U a (b # cs)"
    by (simp only: fixed)
  also from "3.prems" have "\<dots> = a # b # cs"
    by auto
  finally show ?case .
qed simp_all

lemma ordered_drop_mark:
  "canonically_ordered U (a # b # cs) \<Longrightarrow> ccc U b \<noteq> 0 \<Longrightarrow> canonically_ordered U (a # cs)"
  by (cases cs) auto

lemma ordered_tail: "canonically_ordered U (a # cs) \<Longrightarrow> canonically_ordered U cs"
  by (cases cs) simp_all

lemma ordered_Cons_filter:
  "canonically_ordered U (a # cs) \<Longrightarrow> \<forall>c \<in> set cs. \<not> P c \<longrightarrow> ccc U c \<noteq> 0 \<Longrightarrow>
     canonically_ordered U (a # filter P cs)"
proof (induction cs arbitrary: a)
  case Nil
  show ?case by simp
next
  case (Cons b cs)
  show ?case
  proof (cases "P b")
    case True
    from Cons.prems have "canonically_ordered U (b # filter P cs)"
      by (intro Cons.IH) simp_all
    with Cons.prems True show ?thesis by simp
  next
    case False
    with Cons.prems have "ccc U b \<noteq> 0" by simp
    with Cons.prems have "canonically_ordered U (a # cs)"
      by (intro ordered_drop_mark [of U a b cs]) simp_all
    with Cons.prems have "canonically_ordered U (a # filter P cs)"
      by (intro Cons.IH) simp_all
    with False show ?thesis by simp
  qed
qed

lemma ordered_filter:
  "canonically_ordered U cs \<Longrightarrow> \<forall>c \<in> set cs. \<not> P c \<longrightarrow> ccc U c \<noteq> 0 \<Longrightarrow>
     canonically_ordered U (filter P cs)"
proof (induction cs)
  case Nil
  show ?case by simp
next
  case (Cons a cs)
  show ?case
  proof (cases "P a")
    case True
    with Cons.prems show ?thesis by (simp add: ordered_Cons_filter)
  next
    case False
    from Cons.prems have "canonically_ordered U cs" by (intro ordered_tail [of U a cs])
    with Cons False show ?thesis by simp
  qed
qed

lemma stringIterator_not_high:
  "\<not> is_high_surrogate u \<Longrightarrow> stringIterator (u # us) = [u] # stringIterator us"
  by (cases us) simp_all

lemma utf16_decode_encode_cp:
  assumes "is_scalar c"
  shows "utf16_decode (utf16_encode_cp c @ us) = c # utf16_decode us"
proof (cases "c < 0x10000")
  case True
  with assms have "\<not> is_high_surrogate c"
    by (auto simp add: is_scalar_def is_high_surrogate_def)
  with True show ?thesis
    by (simp add: utf16_encode_cp_def utf16_decode_def stringIterator_not_high)
next
  case False
  define k where "k = c - 0x10000"
  with False assms have k: "k < 0x100000" and c: "c = 0x10000 + k"
    by (simp_all add: is_scalar_def)
  from k have d: "k div 0x400 < 0x400"
    by simp
  have m: "k mod 0x400 < 0x400"
    by simp
  have h: "is_high_surrogate (0xD800 + k div 0x400)"
    using d by (simp add: is_high_surrogate_def)
  have l: "is_low_surrogate (0xDC00 + k mod 0x400)"
    using m by (simp add: is_low_surrogate_def)
  have "k div 0x400 * 0x400 + k mod 0x400 = k"
    by simp
  with False h l show ?thesis
    by (simp add: utf16_encode_cp_def utf16_decode_def k_def [symmetric] c)
qed

lemma utf16_decode_encode:
  "list_all is_scalar cs \<Longrightarrow> utf16_decode (utf16_encode cs) = cs"
proof (induction cs)
  case Nil
  show ?case by (simp add: utf16_encode_Nil utf16_decode_Nil)
next
  case (Cons c cs)
  then have "utf16_decode (utf16_encode_cp c @ utf16_encode cs) = c # utf16_decode (utf16_encode cs)"
    by (intro utf16_decode_encode_cp) simp
  with Cons show ?case
    by (simp add: utf16_encode_def)
qed

lemma stringIterator_elements:
  "e \<in> set (stringIterator s) \<Longrightarrow>
     (\<exists>u. e = [u]) \<or> (\<exists>h l. e = [h, l] \<and> is_high_surrogate h \<and> is_low_surrogate l)"
  by (induction s rule: stringIterator.induct) (auto split: if_splits)

lemma surrogate_pair_scalar:
  assumes "is_high_surrogate h" "is_low_surrogate l"
  shows "is_scalar (codePointAt [h, l])"
proof -
  from assms(1) have "h - 0xD800 \<le> 0x3FF"
    by (auto simp add: is_high_surrogate_def)
  then have "(h - 0xD800) * 0x400 \<le> 0x3FF * 0x400"
    by (rule mult_le_mono1)
  moreover from assms(2) have "l - 0xDC00 \<le> 0x3FF"
    by (auto simp add: is_low_surrogate_def)
  ultimately show ?thesis
    by (simp add: is_scalar_def)
qed

lemma utf16_decode_well_formed:
  assumes "well_formed s"
  shows "list_all is_scalar (utf16_decode s)"
proof -
  have "is_scalar (codePointAt e)" if e: "e \<in> set (stringIterator s)" for e
  proof -
    from e consider u where "e = [u]"
      | h l where "e = [h, l]" "is_high_surrogate h" "is_low_surrogate l"
      using stringIterator_elements by blast
    then show ?thesis
    proof cases
      case 1
      with assms e show ?thesis
        by (auto simp add: well_formed_def list_all_iff)
    next
      case 2
      then show ?thesis
        by (simp only: surrogate_pair_scalar)
    qed
  qed
  then show ?thesis
    by (simp add: utf16_decode_def list_all_iff)
qed

lemma strip_encode_cp:
  "filter (\<lambda>u. \<not> combining_diacritical u) (utf16_encode_cp c)
     = utf16_encode_cp c \<and> \<not> combining_diacritical c
   \<or> filter (\<lambda>u. \<not> combining_diacritical u) (utf16_encode_cp c) = [] \<and> combining_diacritical c"
  by (simp add: utf16_encode_cp_def combining_diacritical_def)

lemma strip_encode:
  "filter (\<lambda>u. \<not> combining_diacritical u) (utf16_encode cs)
     = utf16_encode (filter (\<lambda>c. \<not> combining_diacritical c) cs)"
proof (induction cs)
  case Nil
  show ?case by (simp add: utf16_encode_def)
next
  case (Cons c cs)
  with strip_encode_cp [of c] show ?case
    by (auto simp add: utf16_encode_def)
qed

lemma decompose_fixed:
  "\<forall>c \<in> set cs. canonical_decomposition U c = [c] \<Longrightarrow> decompose U cs = cs"
  by (induction cs) (simp_all add: decompose_def)

lemma decompose_full:
  assumes "full_decompositions U" "list_all is_scalar cs" "d \<in> set (decompose U cs)"
  shows "is_scalar d \<and> canonical_decomposition U d = [d]"
  using assms by (auto simp add: full_decompositions_def decompose_def list_all_iff)

lemma normalizeText_encode:
  "normalizeText U s
     = utf16_encode (filter (\<lambda>c. \<not> combining_diacritical c)
         (canonical_reorder U (decompose U (utf16_decode s))))"
  by (simp add: normalizeText_def normalize_NFD_def strip_encode)

lemma normalizeText_idempotent_aux:
  assumes full: "full_decompositions U"
    and wf: "well_formed s"
    and marks: "\<forall>c \<in> set (decompose U (utf16_decode s)). combining_diacritical c \<longrightarrow> ccc U c \<noteq> 0"
  shows "normalizeText U (normalizeText U s) = normalizeText U s"
proof -
  define ds where "ds = decompose U (utf16_decode s)"
  define kept where "kept = filter (\<lambda>c. \<not> combining_diacritical c) (canonical_reorder U ds)"
  have n: "normalizeText U s = utf16_encode kept"
    by (simp add: normalizeText_encode kept_def ds_def)
  from wf have "list_all is_scalar (utf16_decode s)"
    by (rule utf16_decode_well_formed)
  with full have dec: "is_scalar d \<and> canonical_decomposition U d = [d]" if "d \<in> set ds" for d
    using that unfolding ds_def by (intro decompose_full)
  have sub: "set kept \<subseteq> set ds"
    by (auto simp add: kept_def set_canonical_reorder)
  from sub dec have "list_all is_scalar kept"
    by (auto simp add: list_all_iff)
  then have 1: "utf16_decode (utf16_encode kept) = kept"
    by (rule utf16_decode_encode)
  from sub dec have 2: "decompose U kept = kept"
    by (intro decompose_fixed) auto
  have "canonically_ordered U kept"
    unfolding kept_def
    using marks by (intro ordered_filter ordered_canonical_reorder)
      (auto simp add: set_canonical_reorder ds_def)
  then have 3: "canonical_reorder U kept = kept"
    by (rule canonical_reorder_ordered)
  have 4: "filter (\<lambda>c. \<not> combining_diacritical c) kept = kept"
    by (simp add: kept_def)
  have "normalizeText U (utf16_encode kept) = utf16_encode kept"
    by (simp add: normalizeText_encode 1 2 3 4)
  with n show ?thesis
    by simp
qed

lemma decomposition_table_full:
  "list_all (\<lambda>(c, ds). list_all (\<lambda>d. is_scalar d \<and> d < 0xC0 \<or> is_scalar d \<and> 0x300 \<le> d \<and> d \<le> 0x33F) ds)
     decomposition_table"
  by (simp add: decomposition_table_def is_scalar_def)

lemma decomposition_table_None_marks:
  "0x300 \<le> d \<Longrightarrow> d \<le> 0x33F \<Longrightarrow> map_of decomposition_table d = None"
  by (simp add: decomposition_table_def)

lemma canonical_decomposition_marks:
  "0x300 \<le> d \<Longrightarrow> d \<le> 0x33F \<Longrightarrow> canonical_decomposition U d = [d]"
  by (simp add: canonical_decomposition_def tabulated_def decomposition_table_None_marks)

lemma full_decompositions_no_further_rows: "full_decompositions no_further_rows"
  unfolding full_decompositions_def
proof (intro allI impI ballI)
  fix c d
  assume c: "is_scalar c" and d: "d \<in> set (canonical_decomposition no_further_rows c)"
  show "is_scalar d \<and> canonical_decomposition no_further_rows d = [d]"
  proof (cases "map_of decomposition_table c")
    case None
    with d have "d = c"
      by (auto simp add: canonical_decomposition_def no_further_rows_def split: if_splits)
    with c None show ?thesis
      by (simp add: canonical_decomposition_def no_further_rows_def)
  next
    case (Some ds)
    then have "(c, ds) \<in> set decomposition_table"
      by (rule map_of_SomeD)
    with decomposition_table_full
    have ds: "\<forall>d \<in> set ds. is_scalar d \<and> (d < 0xC0 \<or> 0x300 \<le> d \<and> d \<le> 0x33F)"
      by (auto simp add: list_all_iff)
    show ?thesis
    proof (cases "tabulated c")
      case True
      with d Some have "d \<in> set ds"
        by (simp add: canonical_decomposition_def)
      with ds have s: "is_scalar d" and r: "d < 0xC0 \<or> 0x300 \<le> d \<and> d \<le> 0x33F"
        by auto
      from r have "map_of decomposition_table d = None"
        by (auto simp add: decomposition_table_None decomposition_table_None_marks)
      with s show ?thesis
        by (simp add: canonical_decomposition_def no_further_rows_def)
    next
      case False
      with decomposition_table_keys \<open>(c, ds) \<in> set decomposition_table\<close> show ?thesis
        by (auto simp add: list_all_iff)
    qed
  qed
qed

lemmas normalize_eval =
  normalizeText_def normalize_NFD_def utf16_decode_def utf16_encode_def utf16_encode_cp_def
  decompose_def is_high_surrogate_def is_low_surrogate_def combining_diacritical_def
  french_decompositions french_marks_ccc hebrew_marks canonical_decomposition_below_C0
  canonical_decomposition_marks ccc_latin1

lemma normalizeText_ete: "normalizeText U [0xE9, 0x74, 0xE9] = lit ''ete''"
  by (simp add: normalize_eval lit_def)

lemma normalizeText_joiner:
  "normalizeText U [0x591, 0x34F, 0x5B0] = [0x591, 0x5B0]"
  "normalizeText U [0x591, 0x5B0] = [0x5B0, 0x591]"
  "normalizeText U [0x61, 0x591] = [0x61, 0x591]"
  by (simp_all add: normalize_eval)

lemma normalizeText_joins_lone_surrogates:
  assumes "ucd_decomposition U 0xD834 = [0xD834]" "ucd_ccc U 0xD834 = 0"
    and "ucd_decomposition U 0xDD5E = [0xDD5E]" "ucd_ccc U 0xDD5E = 0"
    and "ucd_decomposition U 0x1D15E = [0x1D157, 0x1D165]"
    and "ucd_ccc U 0x1D157 = 0" "ucd_ccc U 0x1D165 = 216"
  shows "normalizeText U [0xD834, 0x301, 0xDD5E] = [0xD834, 0xDD5E]
    \<and> normalizeText U [0xD834, 0xDD5E] = [0xD834, 0xDD57, 0xD834, 0xDD65]"
proof -
  from assms have rows:
    "canonical_decomposition U 0xD834 = [0xD834]" "ccc U 0xD834 = 0"
    "canonical_decomposition U 0xDD5E = [0xDD5E]" "ccc U 0xDD5E = 0"
    "canonical_decomposition U 0x1D15E = [0x1D157, 0x1D165]"
    "ccc U 0x1D157 = 0" "ccc U 0x1D165 = 216"
    by (simp_all add: canonical_decomposition_def ccc_def tabulated_def)
  show ?thesis
    by (simp add: normalize_eval rows)
qed

section \<open>The text normalizer\<close>

text \<open>
  Claim C6, as amended: for every input string the normalizer takes the canonical
  decomposition (decoding, full decomposition of every code point, canonical ordering,
  encoding) and then removes every code unit from U+0300 to U+036F, the Combining
  Diacritical Marks block, so that the result holds no code unit of that block; combining
  marks of other blocks stay. U+00E9 \<^verbatim>\<open>t\<close> U+00E9 becomes \<^verbatim>\<open>ete\<close>, U+00E0 becomes
  \<^verbatim>\<open>a\<close>, and the accented letters of French become their base letters: U+00E9, U+00E8,
  U+00EA, U+00EB become \<^verbatim>\<open>e\<close>; U+00E0, U+00E2 \<^verbatim>\<open>a\<close>; U+00F9, U+00FB \<^verbatim>\<open>u\<close>;
  U+00F4 \<^verbatim>\<open>o\<close>; U+00EE, U+00EF \<^verbatim>\<open>i\<close>; U+00E7 \<^verbatim>\<open>c\<close>.
\<close>

theorem normalizeText_strips_block:
  "normalizeText U s
     = filter (\<lambda>u. \<not> (0x300 \<le> u \<and> u \<le> 0x36F))
         (utf16_encode (canonical_reorder U (decompose U (utf16_decode s))))
   \<and> (\<forall>u \<in> set (normalizeText U s). \<not> (0x300 \<le> u \<and> u \<le> 0x36F))
   \<and> normalizeText U [0xE9, 0x74, 0xE9] = lit ''ete''
   \<and> normalizeText U [0xE0] = lit ''a''
   \<and> map (normalizeText U) [[0xE9], [0xE8], [0xEA], [0xEB]]
       = [lit ''e'', lit ''e'', lit ''e'', lit ''e'']
   \<and> map (normalizeText U) [[0xE0], [0xE2]] = [lit ''a'', lit ''a'']
   \<and> map (normalizeText U) [[0xF9], [0xFB]] = [lit ''u'', lit ''u'']
   \<and> normalizeText U [0xF4] = lit ''o''
   \<and> map (normalizeText U) [[0xEE], [0xEF]] = [lit ''i'', lit ''i'']
   \<and> normalizeText U [0xE7] = lit ''c''"
proof (intro conjI)
  show "normalizeText U s
     = filter (\<lambda>u. \<not> (0x300 \<le> u \<and> u \<le> 0x36F))
         (utf16_encode (canonical_reorder U (decompose U (utf16_decode s))))"
    by (simp add: normalizeText_def normalize_NFD_def combining_diacritical_def)
  show "\<forall>u \<in> set (normalizeText U s). \<not> (0x300 \<le> u \<and> u \<le> 0x36F)"
    by (simp add: normalizeText_def combining_diacritical_def)
  show "normalizeText U [0xE9, 0x74, 0xE9] = lit ''ete''"
    by (rule normalizeText_ete)
qed (simp_all add: normalize_eval lit_def)

theorem normalizeText_strips_block_witness:
  "normalizeText no_further_rows [0x65, 0x301, 0x74, 0xE9] = lit ''ete''
   \<and> 0x301 \<notin> set (normalizeText no_further_rows [0x65, 0x301, 0x74, 0xE9])"
proof
  show "normalizeText no_further_rows [0x65, 0x301, 0x74, 0xE9] = lit ''ete''"
    by (simp add: normalize_eval lit_def)
  have "\<forall>u \<in> set (normalizeText no_further_rows [0x65, 0x301, 0x74, 0xE9]).
          \<not> (0x300 \<le> u \<and> u \<le> 0x36F)"
    by (rule normalizeText_strips_block [THEN conjunct2, THEN conjunct1])
  then show "0x301 \<notin> set (normalizeText no_further_rows [0x65, 0x301, 0x74, 0xE9])"
    by fastforce
qed

text \<open>
  The claim as first stated has all combining marks removed. U+0591, the Hebrew accent
  etnahta, is a nonspacing combining mark of combining class 220 outside the block: it
  stays after the letter \<^verbatim>\<open>a\<close>.
\<close>

theorem normalizeText_keeps_mark_counterexample:
  "0x591 \<in> set (normalizeText no_further_rows [0x61, 0x591]) \<and> ccc no_further_rows 0x591 = 220"
  by (simp add: normalizeText_joiner hebrew_marks)

text \<open>
  Claim C7, as amended: the normalizer is idempotent on every well-formed UTF-16 string
  whose canonical decomposition holds no code point from U+0300 to U+036F of combining
  class 0 (in the Unicode Character Database the only one is U+034F, the combining
  grapheme joiner), the database having full decompositions; and the empty string maps to
  the empty string.
\<close>

theorem normalizeText_idempotent:
  "full_decompositions U \<Longrightarrow> well_formed s \<Longrightarrow>
     \<forall>c \<in> set (decompose U (utf16_decode s)). combining_diacritical c \<longrightarrow> ccc U c \<noteq> 0 \<Longrightarrow>
     normalizeText U (normalizeText U s) = normalizeText U s \<and> normalizeText U [] = []"
proof
  assume full: "full_decompositions U"
    and wf: "well_formed s"
    and marks: "\<forall>c \<in> set (decompose U (utf16_decode s)). combining_diacritical c \<longrightarrow> ccc U c \<noteq> 0"
  define ds where "ds = decompose U (utf16_decode s)"
  define kept where "kept = filter (\<lambda>c. \<not> combining_diacritical c) (canonical_reorder U ds)"
  have n: "normalizeText U s = utf16_encode kept"
    by (simp add: normalizeText_encode kept_def ds_def)
  from wf have "list_all is_scalar (utf16_decode s)"
    by (rule utf16_decode_well_formed)
  with full have dec: "is_scalar d \<and> canonical_decomposition U d = [d]" if "d \<in> set ds" for d
    using that unfolding ds_def by (intro decompose_full)
  have sub: "set kept \<subseteq> set ds"
    by (auto simp add: kept_def set_canonical_reorder)
  from sub dec have "list_all is_scalar kept"
    by (auto simp add: list_all_iff)
  then have 1: "utf16_decode (utf16_encode kept) = kept"
    by (rule utf16_decode_encode)
  from sub dec have 2: "decompose U kept = kept"
    by (intro decompose_fixed) auto
  have "canonically_ordered U kept"
    unfolding kept_def
    using marks by (intro ordered_filter ordered_canonical_reorder)
      (auto simp add: set_canonical_reorder ds_def)
  then have 3: "canonical_reorder U kept = kept"
    by (rule canonical_reorder_ordered)
  have 4: "filter (\<lambda>c. \<not> combining_diacritical c) kept = kept"
    by (simp add: kept_def)
  have "normalizeText U (utf16_encode kept) = utf16_encode kept"
    by (simp add: normalizeText_encode 1 2 3 4)
  with n show "normalizeText U (normalizeText U s) = normalizeText U s"
    by simp
next
  show "normalizeText U [] = []"
    by (rule normalizeText_Nil)
qed

theorem normalizeText_idempotent_witness:
  "full_decompositions no_further_rows
   \<and> well_formed [0xE9, 0x74, 0xE9]
   \<and> decompose no_further_rows (utf16_decode [0xE9, 0x74, 0xE9]) = [0x65, 0x301, 0x74, 0x65, 0x301]
   \<and> ccc no_further_rows 0x301 = 230
   \<and> normalizeText no_further_rows (normalizeText no_further_rows [0xE9, 0x74, 0xE9])
       = normalizeText no_further_rows [0xE9, 0x74, 0xE9]"
proof -
  have wf: "well_formed [0xE9, 0x74, 0xE9]"
    by (simp add: well_formed_def is_high_surrogate_def is_scalar_def)
  have ds: "decompose no_further_rows (utf16_decode [0xE9, 0x74, 0xE9])
              = [0x65, 0x301, 0x74, 0x65, 0x301]"
    by (simp add: normalize_eval)
  have marks: "\<forall>c \<in> set (decompose no_further_rows (utf16_decode [0xE9, 0x74, 0xE9])).
                 combining_diacritical c \<longrightarrow> ccc no_further_rows c \<noteq> 0"
    by (simp add: ds french_marks_ccc combining_diacritical_def)
  show ?thesis
    using normalizeText_idempotent [OF full_decompositions_no_further_rows wf marks] wf ds
      full_decompositions_no_further_rows
    by (simp add: french_marks_ccc)
qed

text \<open>
  The claim as first stated holds of every string. The joiner U+034F keeps the marks
  U+0591 (class 220) and U+05B0 (class 10) in their order; the normalizer removes it, and
  the second normalization exchanges the two marks. The string is well formed, and so is
  its image. Without well-formedness, removing a mark between two lone surrogates can
  make a surrogate pair of them, whose code point the second normalization decomposes
  (\<open>normalizeText_joins_lone_surrogates\<close>).
\<close>

theorem normalizeText_joiner_counterexample:
  "normalizeText no_further_rows (normalizeText no_further_rows [0x591, 0x34F, 0x5B0])
     \<noteq> normalizeText no_further_rows [0x591, 0x34F, 0x5B0]
   \<and> well_formed [0x591, 0x34F, 0x5B0]"
  by (simp add: normalizeText_joiner well_formed_def is_high_surrogate_def is_scalar_def)

section \<open>The word tokenizer\<close>

text \<open>
  Claim C2: the tokenizer on \<^verbatim>\<open>grand-m\<close>U+00E8\<^verbatim>\<open>re dit-elle\<close> and on
  \<^verbatim>\<open>bonjour-\<close>. The trailing hyphen of \<^verbatim>\<open>bonjour-\<close> is dropped and the inner
  hyphens are kept, as the claim says; but \<^verbatim>\<open>\w\<close> holds no accented letter, so the
  code unit U+00E8 ends one token and the next one starts after it: the tokens of the
  first input are \<^verbatim>\<open>grand-m\<close>, \<^verbatim>\<open>re\<close> and \<^verbatim>\<open>dit-elle\<close>.
\<close>

theorem tokenizer_examples:
  "words_of (lit ''grand-m'' @ [0xE8] @ lit ''re dit-elle'')
     = [lit ''grand-m'', lit ''re'', lit ''dit-elle'']
   \<and> words_of (lit ''bonjour-'') = [lit ''bonjour'']"
  by (simp add: regex_eval lit_def)

text \<open>
  The validators lowercase and normalize every token, and the comment on
  \<^verbatim>\<open>normalizeText\<close> has accented letters treated as their base letters; but an accented
  letter never reaches them inside a token. Of U+00E9 \<^verbatim>\<open>t\<close> U+00E9 the one token is
  \<^verbatim>\<open>t\<close>, and the tautogram in \<^verbatim>\<open>e\<close> rejects the text.
\<close>

lemma tautogram_accented_word:
  "words_of [0xE9, 0x74, 0xE9] = [lit ''t'']
   \<and> tautogram_validate U [0xE9, 0x74, 0xE9] (lit ''e'')
       = invalid (tautogram_error (lit ''t'') (lit ''e''))"
  by (simp add: tautogram_validate_def regex_eval ascii_eval lit_def startsWith_def)

section \<open>The tautogram validator\<close>

text \<open>
  Claim C3, as amended: with the parameter \<^verbatim>\<open>p\<close> the tautogram validator rejects
  \<^verbatim>\<open>Pierre porte des pommes.\<close>, naming the word \<^verbatim>\<open>des\<close>, and rejects
  \<^verbatim>\<open>Pierre mange.\<close>, naming the word \<^verbatim>\<open>mange\<close>.
\<close>

theorem tautogram_examples:
  "tautogram_validate U (lit ''Pierre porte des pommes.'') (lit ''p'')
     = \<lparr>isValid = False,
        error = Some (lit ''Le mot '' @ dquote @ lit ''des'' @ dquote
                      @ lit '' ne commence pas par '' @ dquote @ lit ''p'' @ dquote)\<rparr>
   \<and> tautogram_validate U (lit ''Pierre mange.'') (lit ''p'')
     = \<lparr>isValid = False,
        error = Some (lit ''Le mot '' @ dquote @ lit ''mange'' @ dquote
                      @ lit '' ne commence pas par '' @ dquote @ lit ''p'' @ dquote)\<rparr>"
  by (simp add: tautogram_validate_def regex_eval ascii_eval lit_def startsWith_def
      invalid_def tautogram_error_def dquote_def)

text \<open>
  The claim as first stated has the first text accepted. It is not: \<^verbatim>\<open>des\<close> starts
  with \<^verbatim>\<open>d\<close>.
\<close>

theorem tautogram_pierre_counterexample:
  "\<not> isValid (tautogram_validate no_further_rows (lit ''Pierre porte des pommes.'') (lit ''p''))"
  by (simp add: tautogram_validate_def regex_eval ascii_eval lit_def startsWith_def invalid_def)

section \<open>The lipogram validator\<close>

text \<open>
  Claim C4: for every text and every parameter, the lipogram validator returns
  \<^verbatim>\<open>isValid = false\<close> with the error \<^verbatim>\<open>Lettre interdite d\<close>U+00E9\<^verbatim>\<open>tect\<close>U+00E9\<^verbatim>\<open>e : "l"\<close>,
  \<open>l\<close> the lowercased parameter, exactly when the lowercased parameter is a substring
  of the lowercased text stripped of its diacritics, and \<^verbatim>\<open>isValid = true\<close> with no
  error exactly when it is not. When the parameter is a letter \<open>p\<close> of the alphabet or
  its capital (32 code units below), the lowercased parameter is \<open>p\<close>: the message
  quotes \<open>p\<close> and the text is searched for \<open>p\<close>. So \<^verbatim>\<open>caf\<close>U+00E9 with
  \<^verbatim>\<open>e\<close> is invalid, and \<^verbatim>\<open>Elle\<close> with \<^verbatim>\<open>E\<close> is invalid with the letter
  \<^verbatim>\<open>e\<close> in the message.
\<close>

theorem lipogram_invalid_iff_substring:
  "(lipogram_validate U text param
      = \<lparr>isValid = False,
         error = Some (lit ''Lettre interdite d'' @ [0xE9] @ lit ''tect'' @ [0xE9]
                       @ lit ''e : '' @ dquote @ toLowerCase U param @ dquote)\<rparr>
    \<longleftrightarrow> sublist (toLowerCase U param) (normalizeText U (toLowerCase U text)))
   \<and> (lipogram_validate U text param = \<lparr>isValid = True, error = None\<rparr>
    \<longleftrightarrow> \<not> sublist (toLowerCase U param) (normalizeText U (toLowerCase U text)))
   \<and> (p \<in> set ALPHABET \<longrightarrow> param = p \<or> param = map (\<lambda>u. u - 0x20) p \<longrightarrow>
        toLowerCase U param = p
        \<and> lipogram_validate U text param
            = (if sublist p (normalizeText U (toLowerCase U text))
               then \<lparr>isValid = False,
                     error = Some (lit ''Lettre interdite d'' @ [0xE9] @ lit ''tect'' @ [0xE9]
                                   @ lit ''e : '' @ dquote @ p @ dquote)\<rparr>
               else \<lparr>isValid = True, error = None\<rparr>))
   \<and> isValid (lipogram_validate U (lit ''caf'' @ [0xE9]) (lit ''e'')) = False
   \<and> lipogram_validate U (lit ''Elle'') (lit ''E'')
       = \<lparr>isValid = False,
          error = Some (lit ''Lettre interdite d'' @ [0xE9] @ lit ''tect'' @ [0xE9]
                        @ lit ''e : '' @ dquote @ lit ''e'' @ dquote)\<rparr>"
proof (intro conjI impI)
  show "lipogram_validate U text param
          = \<lparr>isValid = False,
             error = Some (lit ''Lettre interdite d'' @ [0xE9] @ lit ''tect'' @ [0xE9]
                           @ lit ''e : '' @ dquote @ toLowerCase U param @ dquote)\<rparr>
        \<longleftrightarrow> sublist (toLowerCase U param) (normalizeText U (toLowerCase U text))"
    by (simp add: lipogram_validate_def includes'_sublist invalid_def valid_def
        lipogram_error_def Let_def)
  show "lipogram_validate U text param = \<lparr>isValid = True, error = None\<rparr>
        \<longleftrightarrow> \<not> sublist (toLowerCase U param) (normalizeText U (toLowerCase U text))"
    by (simp add: lipogram_validate_def includes'_sublist invalid_def valid_def Let_def)
  show "isValid (lipogram_validate U (lit ''caf'' @ [0xE9]) (lit ''e'')) = False"
    by (simp add: lipogram_validate_def normalizeText_cafe invalid_def Let_def)
       (simp add: lit_def toLowerCase_ascii startsWith_def)
  show "lipogram_validate U (lit ''Elle'') (lit ''E'')
       = \<lparr>isValid = False,
          error = Some (lit ''Lettre interdite d'' @ [0xE9] @ lit ''tect'' @ [0xE9]
                        @ lit ''e : '' @ dquote @ lit ''e'' @ dquote)\<rparr>"
    by (simp add: lipogram_validate_def Let_def ascii_eval lit_def startsWith_def invalid_def
        lipogram_error_def)
next
  assume p: "p \<in> set ALPHABET" and param: "param = p \<or> param = map (\<lambda>u. u - 0x20) p"
  from p param show l: "toLowerCase U param = p"
    by (auto simp add: in_ALPHABET_lower in_ALPHABET_upper)
  show "lipogram_validate U text param
            = (if sublist p (normalizeText U (toLowerCase U text))
               then \<lparr>isValid = False,
                     error = Some (lit ''Lettre interdite d'' @ [0xE9] @ lit ''tect'' @ [0xE9]
                                   @ lit ''e : '' @ dquote @ p @ dquote)\<rparr>
               else \<lparr>isValid = True, error = None\<rparr>)"
    by (simp add: lipogram_validate_def l includes'_sublist invalid_def valid_def
        lipogram_error_def Let_def)
qed

theorem lipogram_invalid_iff_substring_witness:
  "lit ''e'' \<in> set ALPHABET
   \<and> lit ''E'' = map (\<lambda>u. u - 0x20) (lit ''e'')
   \<and> toLowerCase no_further_rows (lit ''E'') = lit ''e''
   \<and> lipogram_validate no_further_rows (lit ''Le chat mange.'') (lit ''E'')
       = \<lparr>isValid = False,
          error = Some (lit ''Lettre interdite d'' @ [0xE9] @ lit ''tect'' @ [0xE9]
                        @ lit ''e : '' @ dquote @ lit ''e'' @ dquote)\<rparr>
   \<and> lipogram_validate no_further_rows (lit ''Salut'') (lit ''E'')
       = \<lparr>isValid = True, error = None\<rparr>"
proof -
  have h: "lit ''e'' \<in> set ALPHABET"
    by (simp add: in_ALPHABET lit_def)
  have u: "lit ''E'' = map (\<lambda>u. u - 0x20) (lit ''e'')"
    by (simp add: lit_def)
  then have c: "lit ''E'' = lit ''e'' \<or> lit ''E'' = map (\<lambda>u. u - 0x20) (lit ''e'')"
    by (rule disjI2)
  have t1: "normalizeText no_further_rows (toLowerCase no_further_rows (lit ''Le chat mange.''))
              = lit ''le chat mange.''"
    by (simp add: ascii_eval lit_def)
  have t2: "normalizeText no_further_rows (toLowerCase no_further_rows (lit ''Salut''))
              = lit ''salut''"
    by (simp add: ascii_eval lit_def)
  have s1: "sublist (lit ''e'') (lit ''le chat mange.'')"
    by (simp add: includes'_sublist [symmetric] lit_def) (simp add: startsWith_def)
  have s2: "\<not> sublist (lit ''e'') (lit ''salut'')"
    by (simp add: includes'_sublist [symmetric] lit_def) (simp add: startsWith_def)
  have a: "toLowerCase no_further_rows (lit ''E'') = lit ''e''
      \<and> lipogram_validate no_further_rows (lit ''Le chat mange.'') (lit ''E'')
       = \<lparr>isValid = False,
          error = Some (lit ''Lettre interdite d'' @ [0xE9] @ lit ''tect'' @ [0xE9]
                        @ lit ''e : '' @ dquote @ lit ''e'' @ dquote)\<rparr>"
    using lipogram_invalid_iff_substring
      [of no_further_rows "lit ''Le chat mange.''" "lit ''E''" "lit ''e''",
        THEN conjunct2, THEN conjunct2, THEN conjunct1, rule_format, OF h c]
    by (simp only: t1 s1 if_True)
  have b: "lipogram_validate no_further_rows (lit ''Salut'') (lit ''E'')
       = \<lparr>isValid = True, error = None\<rparr>"
    using lipogram_invalid_iff_substring
      [of no_further_rows "lit ''Salut''" "lit ''E''" "lit ''e''",
        THEN conjunct2, THEN conjunct2, THEN conjunct1, rule_format, OF h c]
    by (simp only: t2 s2 if_False)
  from h u a b show ?thesis
    by (simp only: simp_thms)
qed

text \<open>
  Claim C9: the lipogram validator does not see the case of its parameter. For every text
  and every letter of the alphabet, the capital letter (32 code units below) and the small
  letter give the same result, error message included; so do \<^verbatim>\<open>E\<close> and \<^verbatim>\<open>e\<close>.
\<close>

theorem lipogram_parameter_case:
  "p \<in> set ALPHABET \<Longrightarrow>
     lipogram_validate U text (map (\<lambda>u. u - 0x20) p) = lipogram_validate U text p
     \<and> lipogram_validate U text (lit ''E'') = lipogram_validate U text (lit ''e'')"
  by (simp add: lipogram_validate_def in_ALPHABET_lower in_ALPHABET_upper
      toLowerCase_ascii lit_def)

theorem lipogram_parameter_case_witness:
  "lit ''z'' \<in> set ALPHABET
   \<and> lipogram_validate no_further_rows (lit ''Zut'') (lit ''Z'')
       = lipogram_validate no_further_rows (lit ''Zut'') (lit ''z'')"
proof -
  have h: "lit ''z'' \<in> set ALPHABET"
    by (simp add: in_ALPHABET lit_def)
  show ?thesis
    using h lipogram_parameter_case [OF h, of no_further_rows "lit ''Zut''"]
    by (simp add: lit_def)
qed

text \<open>
  Claim C10: called with the empty string as parameter, the lipogram validator returns
  \<^verbatim>\<open>isValid = false\<close> for every text, the empty text included: the empty string
  occurs in every string.
\<close>

theorem lipogram_empty_parameter:
  "isValid (lipogram_validate U text []) = False \<and> isValid (lipogram_validate U [] []) = False"
  by (simp add: lipogram_validate_def toLowerCase_Nil includes'_Nil invalid_def)

section \<open>The empty text\<close>

text \<open>
  Claim C8: for every constraint of the registry and every parameter of its list of
  options, the validator accepts the empty text.
\<close>

theorem empty_text_valid:
  "c \<in> set (CONSTRAINTS U) \<Longrightarrow> p \<in> set (options (parameter c)) \<Longrightarrow>
     isValid (validate c [] p) = True"
proof (erule CONSTRAINTS_cases)
  assume "p \<in> set (options (parameter c))" "options (parameter c) = ALPHABET"
    "validate c = lipogram_validate U"
  then show ?thesis
    by (auto simp add: lipogram_validate_def toLowerCase_Nil normalizeText_Nil
        in_ALPHABET_lower in_ALPHABET startsWith_def valid_def)
next
  assume "validate c = monovocalism_validate U"
  then show ?thesis
    by (simp add: monovocalism_validate_def toLowerCase_Nil normalizeText_Nil valid_def)
next
  assume "validate c = tautogram_validate U"
  then show ?thesis
    by (simp add: tautogram_validate_def words_of_Nil valid_def)
next
  assume "validate c = alliteration_validate U"
  then show ?thesis
    by (simp add: alliteration_validate_def words_of_Nil valid_def)
qed

theorem empty_text_valid_witness:
  "CONSTRAINTS no_further_rows ! 1 \<in> set (CONSTRAINTS no_further_rows)
   \<and> lit ''a'' \<in> set (options (parameter (CONSTRAINTS no_further_rows ! 1)))
   \<and> isValid (validate (CONSTRAINTS no_further_rows ! 1) [] (lit ''a'')) = True"
proof -
  have h1: "CONSTRAINTS no_further_rows ! 1 \<in> set (CONSTRAINTS no_further_rows)"
    by (simp add: CONSTRAINTS_def)
  have h2: "lit ''a'' \<in> set (options (parameter (CONSTRAINTS no_further_rows ! 1)))"
    by (simp add: CONSTRAINTS_def VOWELS_def)
  show ?thesis
    using h1 h2 empty_text_valid [OF h1 h2] by simp
qed

section \<open>Alliteration and tautogram\<close>



section \<open>Parameters outside the list of options\<close>

text \<open>
  Claim C1, as amended: no validator of the registry looks at the list of options. For
  every constraint, every text and every parameter string, in the list or not,
  \<^verbatim>\<open>isValid\<close> is true exactly when the check finds no match: for the lipogram, when
  the lowercased parameter is no substring of the lowercased, normalized text; for the
  monovocalism, when every element of that text that is one of \<open>VOWELS\<close> is the
  lowercased parameter; for the tautogram and the alliteration, when the lowercased,
  normalized form of every token starts with the lowercased parameter.
\<close>

theorem validate_ignores_options:
  "c \<in> set (CONSTRAINTS U) \<Longrightarrow>
     isValid (validate c text param) =
       (case id' c of
          Lipogram \<Rightarrow> \<not> sublist (toLowerCase U param) (normalizeText U (toLowerCase U text))
        | Monovocalism \<Rightarrow>
            (\<forall>char \<in> set (stringIterator (normalizeText U (toLowerCase U text))).
               char \<in> set VOWELS \<longrightarrow> char = toLowerCase U param)
        | Tautogram \<Rightarrow>
            (\<forall>word \<in> set (words_of text).
               prefix (toLowerCase U param) (normalizeText U (toLowerCase U word)))
        | Alliteration \<Rightarrow>
            (\<forall>word \<in> set (words_of text).
               prefix (toLowerCase U param) (normalizeText U (toLowerCase U word))))"
proof (erule CONSTRAINTS_cases)
  assume "id' c = Lipogram" "validate c = lipogram_validate U"
  then show ?thesis
    by (simp add: lipogram_validate_def includes'_sublist valid_def invalid_def Let_def)
next
  assume "id' c = Monovocalism" "validate c = monovocalism_validate U"
  then show ?thesis
    by (auto simp add: monovocalism_validate_def monovocalism_loop_valid Let_def)
next
  assume "id' c = Tautogram" "validate c = tautogram_validate U"
  then show ?thesis
    by (simp add: tautogram_validate_def tautogram_loop_valid Let_def)
next
  assume "id' c = Alliteration" "validate c = alliteration_validate U"
  then show ?thesis
    by (simp add: alliteration_validate_def alliteration_loop_valid Let_def)
qed

theorem validate_ignores_options_witness:
  "lit ''1'' \<notin> set (options (parameter (CONSTRAINTS no_further_rows ! 2)))
   \<and> isValid (validate (CONSTRAINTS no_further_rows ! 2) (lit ''1 abc'') (lit ''1'')) = False"
proof -
  have h: "CONSTRAINTS no_further_rows ! 2 \<in> set (CONSTRAINTS no_further_rows)"
    by (simp add: CONSTRAINTS_def)
  have i: "id' (CONSTRAINTS no_further_rows ! 2) = Tautogram"
    by (simp add: CONSTRAINTS_def)
  have o: "lit ''1'' \<notin> set (options (parameter (CONSTRAINTS no_further_rows ! 2)))"
    by (simp add: CONSTRAINTS_def in_ALPHABET lit_def)
  have w: "words_of (lit ''1 abc'') = [lit ''1'', lit ''abc'']"
    by (simp add: regex_eval lit_def)
  show ?thesis
    using validate_ignores_options [OF h, of "lit ''1 abc''" "lit ''1''"] o
    by (simp add: i w) (simp add: ascii_eval lit_def)
qed

text \<open>
  The claim as first stated has every parameter outside the list accepted. The capital
  \<^verbatim>\<open>E\<close> is not in the list of the lipogram, and \<^verbatim>\<open>Elle\<close> is rejected with it.
\<close>

theorem out_of_domain_parameter_counterexample:
  "CONSTRAINTS no_further_rows ! 0 \<in> set (CONSTRAINTS no_further_rows)
   \<and> lit ''E'' \<notin> set (options (parameter (CONSTRAINTS no_further_rows ! 0)))
   \<and> isValid (validate (CONSTRAINTS no_further_rows ! 0) (lit ''Elle'') (lit ''E'')) = False"
  by (simp add: CONSTRAINTS_def in_ALPHABET lipogram_validate_def Let_def invalid_def)
     (simp add: ascii_eval lit_def startsWith_def)

end
